theory Spec2Isabelle
  imports Complex_Main "HOL-Library.Sublist" "HOL-Library.Multiset"
begin

section \<open>The data model of \<^verbatim>\<open>src/pages/GitHubProjects.tsx\<close>\<close>

text \<open>
  The page keeps a list of bookmarked repositories (``projects''), a global palette of
  categories, one optionally selected project and a few flags. Every type of the source is
  a record here. Two records cannot share a field name, so the fields \<^verbatim>\<open>id\<close>,
  \<^verbatim>\<open>name\<close>, \<^verbatim>\<open>size\<close> and \<^verbatim>\<open>url\<close> carry a suffix that names
  their record. Strings are lists of 8-bit characters, each one UTF-16 code unit below 256;
  numbers that the page only passes on (counts, identifiers) are integers.
\<close>

subsection \<open>JavaScript numbers\<close>

text \<open>
  The percentages of the language breakdown are computed in IEEE 754 binary64 arithmetic.
  The values that can arise from non-negative byte counts are modelled: a finite
  non-negative double, by its exact rational value, positive infinity, and NaN.
\<close>

datatype number = NaN | Infinity | Num rat

subsection \<open>Records\<close>

record Category =
  id_c :: string
  name_c :: string
  color :: string

record ProjectStats =
  stars :: int
  forks :: int
  watchers :: int
  issues :: int

record Language =
  name_l :: string
  percentage :: number

record Release =
  name_rel :: string
  published_at :: string
  url_rel :: string

text \<open>
  The field \<^verbatim>\<open>categories\<close> is declared as an array, but the page reads it
  defensively (\<^verbatim>\<open>project.categories || []\<close>, \<^verbatim>\<open>project.categories?.some\<close>),
  so the model lets it be undefined (\<open>None\<close>).
\<close>

record Project =
  id_p :: string
  name_p :: string
  description :: string
  category :: string
  url :: string
  logo :: "string option"
  owner :: string
  stats :: ProjectStats
  lastActivity :: string
  contributors :: int
  branches :: int
  commits :: int
  pullRequests :: int
  categories :: "Category list option"
  languages :: "Language list"
  topics :: "string list"
  license :: "string option"
  size_p :: "int option"
  lastRelease :: "Release option"
  homepage :: "string option"

text \<open>
  Modelled from the spec: the types \<^verbatim>\<open>GitHubRepo\<close> and the result of
  \<^verbatim>\<open>getRepoDetails\<close> are declared in \<^verbatim>\<open>utils/github\<close>, which is not part
  of the sources at hand. Their fields are the ones the page reads, typed as the
  collaborator contracts of the specification give them. The byte-count map
  \<^verbatim>\<open>languages\<close> is an association list in the iteration order of
  \<^verbatim>\<open>Object.values\<close> and \<^verbatim>\<open>Object.entries\<close>, with non-negative integer counts.
\<close>

record RepoOwner =
  avatar_url :: string
  login :: string

record RepoLicense =
  name_lic :: string

record GitHubRepo =
  id_r :: int
  full_name :: string
  name_r :: string
  description_r :: "string option"
  html_url :: string
  owner_r :: RepoOwner
  stargazers_count :: int
  forks_count :: int
  watchers_count :: int
  open_issues_count :: int
  updated_at :: string
  license_r :: "RepoLicense option"
  size_r :: int
  homepage_r :: "string option"

record RepoRelease =
  name_d :: string
  published_at_d :: string
  html_url_d :: string

record RepoDetails =
  languages_d :: "(string \<times> nat) list"
  contributors_d :: int
  branches_d :: int
  commits_d :: int
  pullRequests_d :: int
  topics_d :: "string list option"
  lastRelease_d :: "RepoRelease option"

datatype js_error = Error string

subsection \<open>The state of the page\<close>

text \<open>
  The eight \<^verbatim>\<open>useState\<close> cells of the component, and what the page writes outside
  itself: the two lists of the persistence layer (the last argument of
  \<^verbatim>\<open>setProjects\<close> and of \<^verbatim>\<open>setCategories\<close>) and the console.
\<close>

record page =
  selectedProject :: "Project option"
  isCategoryDialogOpen :: bool
  projectSearch :: string
  selectedCategories :: "string list"
  projects :: "Project list"
  globalCategories :: "Category list"
  isDiscoveryMode :: bool
  isLoading :: bool
  storedProjects :: "Project list"
  storedCategories :: "Category list"
  console :: "(string \<times> js_error) list"

section \<open>The project store and the category store\<close>

text \<open>\<^verbatim>\<open>xs || []\<close> for an array that may be undefined.\<close>

definition or_empty :: "'a list option \<Rightarrow> 'a list" where
  "or_empty xs = (case xs of None \<Rightarrow> [] | Some ys \<Rightarrow> ys)"

text \<open>The persistence call \<^verbatim>\<open>setProjects\<close> of \<^verbatim>\<open>utils/store\<close>: a full-list write.\<close>

definition setProjects :: "Project list \<Rightarrow> page \<Rightarrow> page" where
  "setProjects ps s = s\<lparr>storedProjects := ps\<rparr>"

definition setCategories :: "Category list \<Rightarrow> page \<Rightarrow> page" where
  "setCategories cs s = s\<lparr>storedCategories := cs\<rparr>"

text \<open>
  The state setters. Each handler of the page hands its setter a freshly built array, so
  the effect that depends on the cell (lines 83 to 89) runs after it and writes the new
  list to the persistence layer.
\<close>

definition setProjectsState :: "Project list \<Rightarrow> page \<Rightarrow> page" where
  "setProjectsState ps s = setProjects ps (s\<lparr>projects := ps\<rparr>)"

definition setGlobalCategories :: "Category list \<Rightarrow> page \<Rightarrow> page" where
  "setGlobalCategories cs s = setCategories cs (s\<lparr>globalCategories := cs\<rparr>)"

definition addProject :: "Project \<Rightarrow> page \<Rightarrow> page" where
  "addProject project s = setProjectsState (projects s @ [project]) s"

definition removeProject :: "string \<Rightarrow> page \<Rightarrow> page" where
  "removeProject i s = setProjectsState (filter (\<lambda>p. id_p p \<noteq> i) (projects s)) s"

text \<open>
  \<^verbatim>\<open>addCategory\<close> (lines 99 to 120). A selected project is an object and so truthy;
  \<^verbatim>\<open>find\<close> returns the first match, an object, or undefined.
\<close>

definition addCategory :: "Category \<Rightarrow> page \<Rightarrow> page" where
  "addCategory c s =
     (case selectedProject s of
        None \<Rightarrow> s
      | Some sel \<Rightarrow>
          let updatedProjects =
                map (\<lambda>project.
                       if id_p project = id_p sel
                       then project\<lparr>categories := Some (or_empty (categories project) @ [c])\<rparr>
                       else project)
                    (projects s);
              s1 = setProjectsState updatedProjects s;
              s2 = s1\<lparr>selectedProject :=
                        Some (sel\<lparr>categories := Some (or_empty (categories sel) @ [c])\<rparr>)\<rparr>
          in if find (\<lambda>g. name_c g = name_c c) (globalCategories s) = None
             then setGlobalCategories (globalCategories s @ [c]) s2
             else s2)"

text \<open>
  \<^verbatim>\<open>removeCategory\<close> (lines 122 to 139). Line 133 calls \<^verbatim>\<open>setProjects\<close>, the
  persistence function imported from \<^verbatim>\<open>utils/store\<close>, and not the state setter
  \<^verbatim>\<open>setProjectsState\<close>: the updated list goes to the persistence layer only.
\<close>

definition removeCategory :: "string \<Rightarrow> page \<Rightarrow> page" where
  "removeCategory categoryId s =
     (case selectedProject s of
        None \<Rightarrow> s
      | Some sel \<Rightarrow>
          let updatedProjects =
                map (\<lambda>project.
                       if id_p project = id_p sel
                       then project\<lparr>categories :=
                              Some (filter (\<lambda>c. id_c c \<noteq> categoryId) (or_empty (categories project)))\<rparr>
                       else project)
                    (projects s);
              s1 = setProjects updatedProjects s
          in s1\<lparr>selectedProject :=
                   Some (sel\<lparr>categories :=
                           Some (filter (\<lambda>c. id_c c \<noteq> categoryId) (or_empty (categories sel)))\<rparr>)\<rparr>)"

definition toggleCategoryFilter :: "string \<Rightarrow> page \<Rightarrow> page" where
  "toggleCategoryFilter categoryId s =
     s\<lparr>selectedCategories :=
         (if categoryId \<in> set (selectedCategories s)
          then filter (\<lambda>i. i \<noteq> categoryId) (selectedCategories s)
          else selectedCategories s @ [categoryId])\<rparr>"

section \<open>The filter\<close>













section \<open>Double arithmetic\<close>

text \<open>
  Rounding a non-negative rational to the nearest binary64 value, ties to the even
  significand. \<open>ilog2 x\<close> is the binary exponent of \<open>x\<close>, that is
  \<open>\<lfloor>log\<^sub>2 x\<rfloor>\<close>; the unit in the last place of a double with this exponent is
  \<open>2 powi (ilog2 x - 52)\<close>, and never less than \<open>2 powi (- 1074)\<close>, the spacing of the
  subnormal numbers. A result of \<open>2 ^ 1024\<close> or more overflows to infinity.
\<close>

fun bitlen :: "nat \<Rightarrow> nat" where
  "bitlen n = (if n = 0 then 0 else Suc (bitlen (n div 2)))"

declare bitlen.simps [simp del]

definition ilog2 :: "rat \<Rightarrow> int" where
  "ilog2 x =
     (let (n, d) = quotient_of x;
          k = int (bitlen (nat n)) - int (bitlen (nat d))
      in if 2 powi k \<le> x then k else k - 1)"

definition round_half_even :: "rat \<Rightarrow> int" where
  "round_half_even y =
     (let f = \<lfloor>y\<rfloor>; r = y - of_int f
      in if r < 1 / 2 then f else if 1 / 2 < r then f + 1 else if even f then f else f + 1)"

definition fl :: "rat \<Rightarrow> number" where
  "fl x =
     (if x \<le> 0 then Num 0
      else let e = max (ilog2 x - 52) (- 1074);
               r = of_int (round_half_even (x / 2 powi e)) * 2 powi e
           in if 2 ^ 1024 \<le> r then Infinity else Num r)"

text \<open>The operators \<^verbatim>\<open>+\<close>, \<^verbatim>\<open>/\<close> and \<^verbatim>\<open>*\<close> on these values.\<close>

fun js_add :: "number \<Rightarrow> number \<Rightarrow> number" where
  "js_add (Num a) (Num b) = fl (a + b)"
| "js_add NaN y = NaN"
| "js_add x NaN = NaN"
| "js_add x y = Infinity"

fun js_div :: "number \<Rightarrow> number \<Rightarrow> number" where
  "js_div (Num a) (Num b) =
     (if b = 0 then (if a = 0 then NaN else Infinity) else fl (a / b))"
| "js_div NaN y = NaN"
| "js_div x NaN = NaN"
| "js_div Infinity Infinity = NaN"
| "js_div Infinity (Num b) = Infinity"
| "js_div (Num a) Infinity = Num 0"

fun js_mul :: "number \<Rightarrow> number \<Rightarrow> number" where
  "js_mul (Num a) (Num b) = fl (a * b)"
| "js_mul NaN y = NaN"
| "js_mul x NaN = NaN"
| "js_mul Infinity (Num b) = (if b = 0 then NaN else Infinity)"
| "js_mul (Num a) Infinity = (if a = 0 then NaN else Infinity)"
| "js_mul Infinity Infinity = Infinity"

text \<open>
  \<^verbatim>\<open>Math.round\<close>: the integer nearest to the argument, the larger one when two are
  equally near.
\<close>

fun Math_round :: "number \<Rightarrow> number" where
  "Math_round (Num x) = Num (of_int \<lfloor>x + 1 / 2\<rfloor>)"
| "Math_round NaN = NaN"
| "Math_round Infinity = Infinity"

text \<open>
  The sign of the difference \<^verbatim>\<open>x - y\<close>, which is all that
  \<^verbatim>\<open>Array.prototype.sort\<close> reads of its comparator's result; it takes NaN (here
  a NaN operand, or infinity minus infinity) for zero. The difference of two distinct
  doubles never rounds to zero.
\<close>

fun js_sub_sign :: "number \<Rightarrow> number \<Rightarrow> int" where
  "js_sub_sign (Num a) (Num b) = (if a < b then - 1 else if a = b then 0 else 1)"
| "js_sub_sign Infinity (Num b) = 1"
| "js_sub_sign (Num a) Infinity = - 1"
| "js_sub_sign x y = 0"

text \<open>
  \<^verbatim>\<open>Array.prototype.sort\<close> is stable. With a comparator that orders consistently,
  every stable sort returns the same list; insertion from the right is the model.
\<close>

fun insort_cmp :: "('a \<Rightarrow> 'a \<Rightarrow> int) \<Rightarrow> 'a \<Rightarrow> 'a list \<Rightarrow> 'a list" where
  "insort_cmp cmp x [] = [x]"
| "insort_cmp cmp x (y # ys) = (if cmp x y \<le> 0 then x # y # ys else y # insort_cmp cmp x ys)"

definition sort_cmp :: "('a \<Rightarrow> 'a \<Rightarrow> int) \<Rightarrow> 'a list \<Rightarrow> 'a list" where
  "sort_cmp cmp xs = foldr (insort_cmp cmp) xs []"

section \<open>Adding a discovered repository\<close>

text \<open>
  The normalisation of lines 309 to 313: the total of the byte counts, summed from the left
  starting at 0, and for each entry the rounded percentage; then the sort, descending.
\<close>

text \<open>
  A byte count enters the arithmetic as the double of the same value, which is exact for
  counts below \<open>2 ^ 53\<close>.
\<close>

definition totalBytes :: "(string \<times> nat) list \<Rightarrow> number" where
  "totalBytes langs = foldl (\<lambda>sum bytes. js_add sum (Num (of_nat bytes))) (Num 0) (map snd langs)"

definition percentage_of :: "number \<Rightarrow> nat \<Rightarrow> number" where
  "percentage_of tot bytes = Math_round (js_mul (js_div (Num (of_nat bytes)) tot) (Num 100))"

definition normalize_languages :: "(string \<times> nat) list \<Rightarrow> Language list" where
  "normalize_languages langs =
     sort_cmp (\<lambda>a b. js_sub_sign (percentage b) (percentage a))
       (map (\<lambda>(name, bytes).
               \<lparr>name_l = name, percentage = percentage_of (totalBytes langs) bytes\<rparr>)
            langs)"

text \<open>\<^verbatim>\<open>Number.prototype.toString\<close> of an integer, in decimal.\<close>

fun digits :: "nat \<Rightarrow> string" where
  "digits n =
     (if n < 10 then [''0123456789'' ! n] else digits (n div 10) @ [''0123456789'' ! (n mod 10)])"

declare digits.simps [simp del]

definition toString :: "int \<Rightarrow> string" where
  "toString i = (if i < 0 then CHR ''-'' # digits (nat (- i)) else digits (nat i))"

text \<open>\<^verbatim>\<open>s.split(sep)\<close> for a separator of one character.\<close>

fun split :: "char \<Rightarrow> string \<Rightarrow> string list" where
  "split sep [] = [[]]"
| "split sep (c # cs) =
     (if c = sep then [] # split sep cs
      else (case split sep cs of [] \<Rightarrow> [[c]] | w # ws \<Rightarrow> (c # w) # ws))"

text \<open>An element of an array destructuring: undefined beyond the end.\<close>

definition nth_opt :: "'a list \<Rightarrow> nat \<Rightarrow> 'a option" where
  "nth_opt xs i = (if i < length xs then Some (xs ! i) else None)"

definition make_project :: "GitHubRepo \<Rightarrow> RepoDetails \<Rightarrow> Project" where
  "make_project repo details =
     \<lparr>id_p = toString (id_r repo),
      name_p = name_r repo,
      description = (case description_r repo of None \<Rightarrow> [] | Some d \<Rightarrow> d),
      category = [],
      url = html_url repo,
      logo = Some (avatar_url (owner_r repo)),
      owner = login (owner_r repo),
      stats = \<lparr>stars = stargazers_count repo, forks = forks_count repo,
                watchers = watchers_count repo, issues = open_issues_count repo\<rparr>,
      lastActivity = updated_at repo,
      contributors = contributors_d details,
      branches = branches_d details,
      commits = commits_d details,
      pullRequests = pullRequests_d details,
      categories = Some [],
      languages = normalize_languages (languages_d details),
      topics = or_empty (topics_d details),
      license = map_option name_lic (license_r repo),
      size_p = Some (size_r repo),
      lastRelease =
        map_option (\<lambda>r. \<lparr>name_rel = name_d r, published_at = published_at_d r,
                           url_rel = html_url_d r\<rparr>)
                   (lastRelease_d details),
      homepage = homepage_r repo\<rparr>"

text \<open>
  \<^verbatim>\<open>handleSelectRepo\<close> (lines 301 to 356). The request of
  \<^verbatim>\<open>getRepoDetails\<close> is a parameter: it answers with the details or fails with an
  error. The handler is modelled as one step, from the state at the click to the state after
  the \<^verbatim>\<open>finally\<close> block; \<^verbatim>\<open>console.error\<close> appends to the console.
\<close>

definition handleSelectRepo ::
  "(string option \<Rightarrow> string option \<Rightarrow> js_error + RepoDetails) \<Rightarrow> GitHubRepo \<Rightarrow> page \<Rightarrow> page"
where
  "handleSelectRepo getRepoDetails repo s =
     (let s1 = s\<lparr>isLoading := True\<rparr>;
          parts = split (CHR ''/'') (full_name repo);
          s2 = (case getRepoDetails (nth_opt parts 0) (nth_opt parts 1) of
                  Inl err \<Rightarrow> s1\<lparr>console := console s1 @ [(''Error adding project:'', err)]\<rparr>
                | Inr details \<Rightarrow> (addProject (make_project repo details) s1)\<lparr>isDiscoveryMode := False\<rparr>)
      in s2\<lparr>isLoading := False\<rparr>)"

definition toggleDiscoveryMode :: "page \<Rightarrow> page" where
  "toggleDiscoveryMode s = s\<lparr>isDiscoveryMode := \<not> isDiscoveryMode s\<rparr>"

subsection \<open>The specification's words for the normalisation\<close>

text \<open>
  One percentage as the specification writes it, round(100 \<times> bytes / total), in exact
  arithmetic: the nearest integer, the larger one at a half, as \<^verbatim>\<open>Math.round\<close>
  rounds.
\<close>

definition spec_percentage :: "nat \<Rightarrow> nat \<Rightarrow> int" where
  "spec_percentage bytes tot = \<lfloor>100 * (of_nat bytes :: rat) / of_nat tot + 1 / 2\<rfloor>"

text \<open>
  The exact percentage 100 \<times> bytes / total lies halfway between two integers: twice it is
  an odd integer.
\<close>

definition exact_half :: "nat \<Rightarrow> nat \<Rightarrow> bool" where
  "exact_half bytes tot = ((200 * bytes) mod (2 * tot) = tot)"

text \<open>
  The value of a finite number, to state orderings and sums of percentages; the theorems
  that use it also say that the numbers in question are finite.
\<close>

definition value_of :: "number \<Rightarrow> rat" where
  "value_of n = (case n of Num v \<Rightarrow> v | _ \<Rightarrow> 0)"

definition percentage_sum :: "Language list \<Rightarrow> rat" where
  "percentage_sum ls = sum_list (map (\<lambda>l. value_of (percentage l)) ls)"

section \<open>Example values\<close>

definition catA :: Category where
  "catA = \<lparr>id_c = ''c1'', name_c = ''frontend'', color = ''#3178c6''\<rparr>"

definition catB :: Category where
  "catB = \<lparr>id_c = ''c2'', name_c = ''tools'', color = ''#f1e05a''\<rparr>"

definition projA :: Project where
  "projA =
     \<lparr>id_p = ''1'', name_p = ''React-Table'', description = ''Headless UI for tables'',
      category = [], url = ''https://github.com/octo/table'', logo = None, owner = ''octo'',
      stats = \<lparr>stars = 10, forks = 2, watchers = 3, issues = 1\<rparr>,
      lastActivity = ''2024-01-01T00:00:00Z'', contributors = 4, branches = 2, commits = 50,
      pullRequests = 1, categories = Some [catA], languages = [], topics = [],
      license = None, size_p = None, lastRelease = None, homepage = None\<rparr>"

definition projB :: Project where
  "projB = projA\<lparr>id_p := ''2'', name_p := ''cli-kit'', description := ''Command line TOOLS'',
                 categories := Some [catA, catB]\<rparr>"


definition page0 :: page where
  "page0 =
     \<lparr>selectedProject = None, isCategoryDialogOpen = False, projectSearch = [],
      selectedCategories = [], projects = [projA, projB], globalCategories = [catA],
      isDiscoveryMode = True, isLoading = False, storedProjects = [projA, projB],
      storedCategories = [catA], console = []\<rparr>"

definition repo1 :: GitHubRepo where
  "repo1 =
     \<lparr>id_r = 1, full_name = ''octo/table'', name_r = ''table'', description_r = None,
      html_url = ''https://github.com/octo/table'',
      owner_r = \<lparr>avatar_url = ''https://avatars.example/octo'', login = ''octo''\<rparr>,
      stargazers_count = 10, forks_count = 2, watchers_count = 3, open_issues_count = 1,
      updated_at = ''2024-01-01T00:00:00Z'', license_r = None, size_r = 400,
      homepage_r = None\<rparr>"

definition details1 :: RepoDetails where
  "details1 =
     \<lparr>languages_d = [(''TypeScript'', 300), (''JavaScript'', 100)], contributors_d = 4,
      branches_d = 2, commits_d = 50, pullRequests_d = 1, topics_d = None,
      lastRelease_d = None\<rparr>"

section \<open>Helper lemmas\<close>

lemma or_empty_simps [simp]: "or_empty None = []" "or_empty (Some xs) = xs"
  by (simp_all add: or_empty_def)

lemma handleSelectRepo_success:
  "getRepoDetails (nth_opt (split (CHR ''/'') (full_name repo)) 0)
                  (nth_opt (split (CHR ''/'') (full_name repo)) 1) = Inr details \<Longrightarrow>
   handleSelectRepo getRepoDetails repo s =
     s\<lparr>projects := projects s @ [make_project repo details],
       storedProjects := projects s @ [make_project repo details],
       isDiscoveryMode := False, isLoading := False\<rparr>"
  by (simp add: handleSelectRepo_def addProject_def setProjectsState_def setProjects_def)

subsection \<open>The search of the filter\<close>















subsection \<open>Rounding to a double\<close>

lemma bitlen_bounds: "0 < n \<Longrightarrow> 2 ^ (bitlen n - 1) \<le> n \<and> n < 2 ^ bitlen n"
proof (induction n rule: bitlen.induct)
  case (1 n)
  show ?case
  proof (cases "n div 2 = 0")
    case True
    with "1.prems" have "n = 1" by (simp add: div_eq_0_iff) 
    then show ?thesis by (simp add: bitlen.simps)
  next
    case False
    then have ih: "2 ^ (bitlen (n div 2) - 1) \<le> n div 2" "n div 2 < 2 ^ bitlen (n div 2)"
      using "1.IH" "1.prems" by auto
    have pos: "0 < bitlen (n div 2)"
      using False by (simp add: bitlen.simps)
    have e: "bitlen n = Suc (bitlen (n div 2))"
      using "1.prems" by (subst bitlen.simps) simp
    have "2 ^ (bitlen n - 1) = 2 * 2 ^ (bitlen (n div 2) - 1)"
      using pos e by (cases "bitlen (n div 2)") simp_all
    also have "\<dots> \<le> 2 * (n div 2)" using ih(1) by simp
    also have "\<dots> \<le> n" by simp
    finally have lo: "2 ^ (bitlen n - 1) \<le> n" .
    have "n < 2 * (n div 2 + 1)" by simp
    also have "\<dots> \<le> 2 * 2 ^ bitlen (n div 2)" using ih(2) by simp
    finally have "n < 2 ^ bitlen n" using e by simp
    with lo show ?thesis by simp
  qed
qed

lemma bitlen_pos: "0 < n \<Longrightarrow> 0 < bitlen n"
  by (subst bitlen.simps) simp

lemma ilog2_bounds:
  assumes "0 < x"
  shows "2 powi (ilog2 x) \<le> x \<and> x < 2 powi (ilog2 x + 1)"
proof -
  obtain n d where q: "quotient_of x = (n, d)" by (cases "quotient_of x")
  have d: "0 < d" using quotient_of_denom_pos [OF q] .
  have x: "x = of_int n / of_int d" using quotient_of_div [OF q] .
  have n: "0 < n" using assms d unfolding x by (simp add: zero_less_divide_iff)
  define N D where "N = nat n" and "D = nat d"
  have N: "0 < N" and D: "0 < D" using n d by (simp_all add: N_def D_def)
  have xq: "x = of_nat N / of_nat D" using n d by (simp add: x N_def D_def)
  define a b where "a = bitlen N" and "b = bitlen D"
  have a: "0 < a" and b: "0 < b" using N D by (simp_all add: a_def b_def bitlen_pos)
  have Na: "2 ^ (a - 1) \<le> N" "N < 2 ^ a" using bitlen_bounds [OF N] by (simp_all add: a_def)
  have Db: "2 ^ (b - 1) \<le> D" "D < 2 ^ b" using bitlen_bounds [OF D] by (simp_all add: b_def)
  have NaR: "(2::rat) ^ (a - 1) \<le> of_nat N" "(of_nat N :: rat) < 2 ^ a"
    using Na by (metis of_nat_le_iff of_nat_numeral of_nat_power, metis of_nat_less_iff of_nat_numeral of_nat_power)
  have DbR: "(2::rat) ^ (b - 1) \<le> of_nat D" "(of_nat D :: rat) < 2 ^ b"
    using Db by (metis of_nat_le_iff of_nat_numeral of_nat_power, metis of_nat_less_iff of_nat_numeral of_nat_power)
  define k where "k = int a - int b"
  have ea: "int (a - 1) = int a - 1" using a by (cases a) simp_all
  have eb: "int (b - 1) = int b - 1" using b by (cases b) simp_all
  have "k - 1 = int (a - 1) - int b" unfolding k_def ea by linarith
  then have "(2::rat) powi (k - 1) = 2 powi (int (a - 1) - int b)"
    by (rule arg_cong)
  also have "\<dots> = 2 ^ (a - 1) / 2 ^ b"
    by (simp add: power_int_diff)
  also have "\<dots> \<le> of_nat N / of_nat D"
    using NaR(1) DbR(2) D by (intro frac_le) simp_all
  finally have lo: "2 powi (k - 1) \<le> x" by (simp add: xq)
  have "x = of_nat N / of_nat D" by (rule xq)
  also have "\<dots> < 2 ^ a / 2 ^ (b - 1)"
    using NaR(2) DbR(1) by (intro frac_less) simp_all
  also have "\<dots> = 2 powi (int a - int (b - 1))"
    by (simp add: power_int_diff)
  also have "\<dots> = 2 powi (k + 1)"
  proof -
    have "int a - int (b - 1) = k + 1" unfolding k_def eb by linarith
    then show ?thesis by (rule arg_cong)
  qed
  finally have hi: "x < 2 powi (k + 1)" .
  have i: "ilog2 x = (if 2 powi k \<le> x then k else k - 1)"
    by (simp add: ilog2_def q k_def a_def b_def N_def D_def)
  show ?thesis
  proof (cases "2 powi k \<le> x")
    case True
    with i hi show ?thesis by simp
  next
    case False
    with i lo show ?thesis by simp
  qed
qed

lemma round_half_even_near: "\<bar>of_int (round_half_even y) - y\<bar> \<le> 1 / 2"
proof -
  have "of_int \<lfloor>y\<rfloor> \<le> y" "y < of_int \<lfloor>y\<rfloor> + 1" by linarith+
  then show ?thesis
    by (auto simp add: round_half_even_def Let_def)
qed

lemma round_half_even_of_int: "round_half_even (of_int m) = m"
  by (simp add: round_half_even_def)


lemma two_powi_pos: "0 < (2::rat) powi e"
  by (simp add: zero_less_power_int)

lemma two_powi_le_imp: "(2::rat) powi a < 2 powi b \<Longrightarrow> a < b"
proof (rule ccontr)
  assume l: "(2::rat) powi a < 2 powi b" and "\<not> a < b"
  then have "b \<le> a" by simp
  then have "(2::rat) powi b \<le> 2 powi a" by (intro power_int_increasing) simp_all
  with l show False by simp
qed

lemma fl_error:
  assumes "1 / 2 ^ 100 \<le> x" and "x \<le> 2 ^ 100"
  shows "\<exists>y. fl x = Num y \<and> \<bar>y - x\<bar> \<le> x / 2 ^ 53"
proof -
  have x0: "0 < x"
    using assms(1) by (rule less_le_trans [rotated]) simp
  define i where "i = ilog2 x"
  have lo: "2 powi i \<le> x" and hi: "x < 2 powi (i + 1)"
    using ilog2_bounds [OF x0] by (simp_all add: i_def)
  have "(2::rat) powi (- 100) = 1 / 2 ^ 100"
    by (simp add: power_int_minus_divide)
  then have "(2::rat) powi (- 100) < 2 powi (i + 1)"
    using assms(1) hi by linarith
  then have i_lo: "- 100 < i + 1"
    by (rule two_powi_le_imp)
  define e where "e = i - 52"
  define p where "p = (2::rat) powi e"
  have emax: "max (ilog2 x - 52) (- 1074) = e"
    using i_lo by (simp add: e_def i_def)
  have p0: "0 < p"
    by (simp add: p_def two_powi_pos)
  have "p = 2 powi i / 2 ^ 52"
    by (simp add: p_def e_def power_int_diff)
  then have p_le: "p \<le> x / 2 ^ 52"
    using lo by (simp add: divide_right_mono)
  define m where "m = round_half_even (x / p)"
  define r where "r = of_int m * p"
  have "\<bar>of_int m - x / p\<bar> \<le> 1 / 2"
    unfolding m_def by (rule round_half_even_near)
  then have "\<bar>of_int m - x / p\<bar> * p \<le> 1 / 2 * p"
    using p0 by (intro mult_right_mono) simp_all
  moreover have "\<bar>of_int m - x / p\<bar> * p = \<bar>r - x\<bar>"
  proof -
    have "\<bar>of_int m - x / p\<bar> * p = \<bar>(of_int m - x / p) * p\<bar>"
      using p0 by (simp add: abs_mult)
    also have "(of_int m - x / p) * p = r - x"
      using p0 by (simp add: r_def field_simps)
    finally show ?thesis .
  qed
  ultimately have "\<bar>r - x\<bar> \<le> p / 2"
    by simp
  with p_le have err: "\<bar>r - x\<bar> \<le> x / 2 ^ 53"
    by simp
  have "r \<le> x + x / 2 ^ 53"
    using err by linarith
  also have "\<dots> \<le> 2 * x"
    using x0 by simp
  also have "\<dots> \<le> 2 ^ 101"
    using assms(2) by simp
  also have "\<dots> < (2::rat) ^ 1024"
    by (rule power_strict_increasing) simp_all
  finally have no_ovf: "\<not> 2 ^ 1024 \<le> r"
    by simp
  have "fl x = Num r"
    using x0 no_ovf unfolding fl_def emax Let_def r_def m_def p_def by simp
  with err show ?thesis
    by blast
qed

lemma fl_of_nat:
  assumes "n < 2 ^ 53"
  shows "fl (of_nat n) = Num (of_nat n)"
proof (cases "n = 0")
  case True
  then show ?thesis by (simp add: fl_def)
next
  case False
  define x :: rat where "x = of_nat n"
  have x0: "0 < x" using False by (simp add: x_def)
  have x1: "1 \<le> x" using False by (simp add: x_def Suc_le_eq)
  have "(of_nat n :: rat) < of_nat (2 ^ 53)"
    using assms by (simp only: of_nat_less_iff)
  then have xu: "x < 2 ^ 53" by (simp add: x_def)
  define i where "i = ilog2 x"
  have lo: "2 powi i \<le> x" and hi: "x < 2 powi (i + 1)"
    using ilog2_bounds [OF x0] by (simp_all add: i_def)
  have "(2::rat) powi 0 < 2 powi (i + 1)"
    using x1 hi by simp
  then have i0: "0 \<le> i"
    using two_powi_le_imp by fastforce
  have "(2::rat) powi i < 2 powi 53"
    using lo xu by simp
  then have i52: "i < 53"
    by (rule two_powi_le_imp)
  define s where "s = nat (52 - i)"
  have e: "i - 52 = - int s"
    using i52 by (simp add: s_def)
  have emax: "max (ilog2 x - 52) (- 1074) = - int s"
    using i0 e by (simp add: i_def)
  have p: "(2::rat) powi (- int s) = 1 / 2 ^ s"
    by (simp add: power_int_minus_divide)
  have "x / (1 / 2 ^ s) = of_int (int n * 2 ^ s)"
    by (simp add: x_def)
  then have m: "round_half_even (x / (1 / 2 ^ s)) = int n * 2 ^ s"
    by (simp only: round_half_even_of_int)
  have "x < 2 ^ 1024"
    using xu by (rule less_trans) (rule power_strict_increasing, simp_all)
  then have "fl x = Num x"
    using x0 unfolding fl_def emax Let_def p m by (simp add: x_def)
  then show ?thesis
    by (simp add: x_def)
qed

lemma foldl_js_add_exact:
  "a + sum_list bs < 2 ^ 53 \<Longrightarrow>
   foldl (\<lambda>sum bytes. js_add sum (Num (of_nat bytes))) (Num (of_nat a)) bs
     = Num (of_nat (a + sum_list bs))"
proof (induction bs arbitrary: a)
  case Nil
  then show ?case by simp
next
  case (Cons b bs)
  have ab: "a + b < 2 ^ 53" using Cons.prems by simp
  have "js_add (Num (of_nat a)) (Num (of_nat b)) = fl (of_nat (a + b))"
    by simp
  also have "\<dots> = Num (of_nat (a + b))"
    using ab by (rule fl_of_nat)
  finally have step: "js_add (Num (of_nat a)) (Num (of_nat b)) = Num (of_nat (a + b))" .
  have "(a + b) + sum_list bs < 2 ^ 53" using Cons.prems by simp
  from Cons.IH [OF this]
  have "foldl (\<lambda>sum bytes. js_add sum (Num (of_nat bytes))) (Num (of_nat (a + b))) bs
          = Num (of_nat (a + sum_list (b # bs)))"
    by (simp only: sum_list.Cons add.assoc)
  then show ?case
    by (simp only: foldl_Cons step)
qed

lemma totalBytes_exact:
  assumes "sum_list (map snd langs) < 2 ^ 53"
  shows "totalBytes langs = Num (of_nat (sum_list (map snd langs)))"
  using foldl_js_add_exact [of 0 "map snd langs"] assms
  by (simp add: totalBytes_def)

lemma ilog2_eqI:
  assumes "0 < x" and "2 powi k \<le> x" and "x < 2 powi (k + 1)"
  shows "ilog2 x = k"
proof -
  from ilog2_bounds [OF assms(1)]
  have lo: "2 powi (ilog2 x) \<le> x" and hi: "x < 2 powi (ilog2 x + 1)"
    by simp_all
  have "(2::rat) powi (ilog2 x) < 2 powi (k + 1)"
    using lo assms(3) by (rule le_less_trans)
  then have "ilog2 x < k + 1"
    by (rule two_powi_le_imp)
  moreover have "(2::rat) powi k < 2 powi (ilog2 x + 1)"
    using assms(2) hi by (rule le_less_trans)
  then have "k < ilog2 x + 1"
    by (rule two_powi_le_imp)
  ultimately show ?thesis
    by simp
qed

lemma round_half_even_eqI:
  assumes "of_int m - 1 / 2 < y" and "y < of_int m + 1 / 2"
  shows "round_half_even y = m"
proof -
  have "\<bar>of_int (round_half_even y) - y\<bar> \<le> 1 / 2"
    by (rule round_half_even_near)
  with assms have "\<bar>(of_int (round_half_even y) :: rat) - of_int m\<bar> < 1"
    by linarith
  then have "(of_int \<bar>round_half_even y - m\<bar> :: rat) < of_int 1"
    by simp
  then have "\<bar>round_half_even y - m\<bar> < 1"
    by (simp only: of_int_less_iff)
  then show ?thesis
    by simp
qed

lemma fl_eqI:
  assumes "0 < x" and "2 powi k \<le> x" and "x < 2 powi (k + 1)" and "- 1022 \<le> k"
    and "of_int m - 1 / 2 < x / 2 powi (k - 52)" and "x / 2 powi (k - 52) < of_int m + 1 / 2"
    and "of_int m * 2 powi (k - 52) < (2::rat) ^ 1024"
  shows "fl x = Num (of_int m * 2 powi (k - 52))"
proof -
  have i: "ilog2 x = k"
    using assms(1-3) by (rule ilog2_eqI)
  have e: "max (k - 52) (- 1074) = k - 52"
    using assms(4) by simp
  have m: "round_half_even (x / 2 powi (k - 52)) = m"
    using assms(5,6) by (rule round_half_even_eqI)
  show ?thesis
    using assms(1,7) unfolding fl_def i e Let_def m by simp
qed

subsection \<open>One percentage\<close>

lemma percentage_of_near:
  assumes T0: "0 < T" and T44: "T < 2 ^ 44" and bT: "b \<le> T"
  shows "\<exists>p::int. percentage_of (Num (of_nat T)) b = Num (of_int p) \<and>
           \<bar>2 * int T * p - 200 * int b\<bar> \<le> int T"
proof (cases "b = 0")
  case True
  have "\<lfloor>(1::rat) / 2\<rfloor> = 0"
    by (rule floor_unique) simp_all
  then have "percentage_of (Num (of_nat T)) 0 = Num (of_int 0)"
    using T0 by (simp add: percentage_of_def fl_def)
  with True show ?thesis
    by (intro exI [of _ 0]) simp
next
  case False
  define t :: rat where "t = of_nat T"
  define x :: rat where "x = of_nat b / t"
  have t0: "0 < t" using T0 by (simp add: t_def)
  have "(of_nat T :: rat) < of_nat (2 ^ 44)"
    using T44 by (simp only: of_nat_less_iff)
  then have t44: "t < 2 ^ 44" by (simp add: t_def)
  have b1: "1 \<le> (of_nat b :: rat)" using False by (simp add: Suc_le_eq)
  have bt: "(of_nat b :: rat) \<le> t" using bT by (simp add: t_def)
  have x_le: "x \<le> 1" using bt t0 by (simp add: x_def)
  have "1 / t \<le> x"
    using b1 t0 by (simp add: x_def divide_right_mono)
  moreover have "1 / 2 ^ 44 < 1 / t"
    using t44 t0 by (simp add: frac_less2)
  ultimately have x_ge: "1 / 2 ^ 44 < x" by simp
  have x0: "0 < x" using x_ge by (rule less_trans [rotated]) simp
  have "1 / 2 ^ 100 \<le> x"
    using x_ge by (rule order_trans [rotated, OF less_imp_le]) simp
  moreover have "x \<le> 2 ^ 100"
    using x_le by (rule order_trans) simp
  ultimately obtain q where q: "fl x = Num q" and qe: "\<bar>q - x\<bar> \<le> x / 2 ^ 53"
    using fl_error by blast
  have "x / 2 ^ 53 \<le> 1 / 2 ^ 53"
    using x_le by (intro divide_right_mono) simp_all
  with qe have qe1: "\<bar>q - x\<bar> \<le> 1 / 2 ^ 53"
    by linarith
  have "x / 2 ^ 53 \<le> x / 2"
    using x0 by (intro divide_left_mono) simp_all
  with qe have qe2: "\<bar>q - x\<bar> \<le> x / 2"
    by linarith
  have small: "(1::rat) / 2 ^ 53 \<le> 1 / 100"
    by simp
  have q_le: "q \<le> 101 / 100"
    using qe1 x_le small by linarith
  define c :: rat where "c = 1 / 2 ^ 44"
  have "c < x" using x_ge by (simp only: c_def)
  with qe2 have "c / 2 \<le> q" by linarith
  then have q_ge: "1 / 2 ^ 45 \<le> q"
    by (simp add: c_def)
  have "(1::rat) / 2 ^ 100 \<le> 1 / 2 ^ 45"
    by simp
  then have q100: "1 / 2 ^ 100 \<le> q"
    using q_ge by (rule order_trans)
  have "(0::rat) \<le> 1 / 2 ^ 100"
    by simp
  then have q0: "0 \<le> q"
    using q100 by (rule order_trans)
  have "q \<le> q * 100"
    using q0 by simp
  with q100 have "1 / 2 ^ 100 \<le> q * 100"
    by (rule order_trans)
  moreover have "q * 100 \<le> 2 ^ 100"
  proof -
    have "q * 100 \<le> 101" using q_le by simp
    moreover have "(101::rat) \<le> 2 ^ 100" by simp
    ultimately show ?thesis by (rule order_trans)
  qed
  ultimately obtain r where r: "fl (q * 100) = Num r" and re: "\<bar>r - q * 100\<bar> \<le> q * 100 / 2 ^ 53"
    using fl_error by blast
  define p where "p = \<lfloor>r + 1 / 2\<rfloor>"
  have pr: "\<bar>of_int p - r\<bar> \<le> 1 / 2"
    unfolding p_def by linarith
  have "r - 100 * x = (r - q * 100) + 100 * (q - x)"
    by simp
  then have "\<bar>r - 100 * x\<bar> \<le> \<bar>r - q * 100\<bar> + \<bar>100 * (q - x)\<bar>"
    by (simp only: abs_triangle_ineq)
  also have "\<dots> = \<bar>r - q * 100\<bar> + 100 * \<bar>q - x\<bar>"
    by (simp only: abs_mult abs_numeral)
  also have "\<dots> \<le> 101 / 2 ^ 53 + 100 / 2 ^ 53"
  proof (intro add_mono)
    have "q * 100 / 2 ^ 53 \<le> 101 / 2 ^ 53"
      using q_le by (intro divide_right_mono) simp_all
    with re show "\<bar>r - q * 100\<bar> \<le> 101 / 2 ^ 53"
      by linarith
    show "100 * \<bar>q - x\<bar> \<le> 100 / 2 ^ 53"
      using qe1 by simp
  qed
  finally have rx: "\<bar>r - 100 * x\<bar> \<le> 201 / 2 ^ 53"
    by simp
  have px: "\<bar>of_int p - 100 * x\<bar> \<le> 1 / 2 + 201 / 2 ^ 53"
    using pr rx by linarith
  have "of_int (2 * int T * p - 200 * int b) = 2 * t * (of_int p - 100 * x)"
    using t0 by (simp add: x_def t_def field_simps)
  then have "\<bar>of_int (2 * int T * p - 200 * int b) :: rat\<bar> = 2 * t * \<bar>of_int p - 100 * x\<bar>"
    using t0 by (simp add: abs_mult)
  also have "\<dots> \<le> 2 * t * (1 / 2 + 201 / 2 ^ 53)"
    using px t0 by (intro mult_left_mono) simp_all
  also have "\<dots> = t + t * (201 / 2 ^ 52)"
    by (simp add: field_simps)
  also have "\<dots> < t + 1"
    using t44 by simp
  finally have "\<bar>of_int (2 * int T * p - 200 * int b) :: rat\<bar> < of_int (int T + 1)"
    by (simp add: t_def)
  then have "(of_int \<bar>2 * int T * p - 200 * int b\<bar> :: rat) < of_int (int T + 1)"
    by (simp only: of_int_abs)
  then have "\<bar>2 * int T * p - 200 * int b\<bar> < int T + 1"
    by (simp only: of_int_less_iff)
  then have main: "\<bar>2 * int T * p - 200 * int b\<bar> \<le> int T"
    by simp
  have "js_div (Num (of_nat b)) (Num (of_nat T)) = Num q"
    using t0 q by (simp add: x_def t_def)
  then have "percentage_of (Num (of_nat T)) b = Num (of_int p)"
    by (simp add: percentage_of_def r p_def)
  with main show ?thesis
    by blast
qed

lemma percentage_of_half:
  assumes m: "\<bar>2 * int T * p - 200 * int b\<bar> \<le> int T" and T0: "0 < T"
  shows "\<bar>of_int p - 100 * of_nat b / (of_nat T :: rat)\<bar> \<le> 1 / 2"
proof -
  define t :: rat where "t = of_nat T"
  have t0: "0 < t" using T0 by (simp add: t_def)
  have "(of_int \<bar>2 * int T * p - 200 * int b\<bar> :: rat) \<le> of_int (int T)"
    using m by (simp only: of_int_le_iff)
  then have "\<bar>2 * t * of_int p - 200 * of_nat b\<bar> \<le> t"
    by (simp add: t_def)
  moreover have "2 * t * of_int p - 200 * of_nat b = (2 * t) * (of_int p - 100 * of_nat b / t)"
    using t0 by (simp add: field_simps)
  ultimately have "\<bar>(2 * t) * (of_int p - 100 * of_nat b / t)\<bar> \<le> t"
    by simp
  then have "(2 * t) * \<bar>of_int p - 100 * of_nat b / t\<bar> \<le> (2 * t) * (1 / 2)"
    using t0 by (simp add: abs_mult)
  then have "\<bar>of_int p - 100 * of_nat b / t\<bar> \<le> 1 / 2"
    using t0 by (simp only: mult_le_cancel_left_pos [of "2 * t"] mult_pos_pos zero_less_numeral)
  then show ?thesis by (simp add: t_def)
qed

lemma percentage_not_half:
  assumes m: "\<bar>2 * int T * p - 200 * int b\<bar> \<le> int T" and T0: "0 < T"
    and nh: "\<not> exact_half b T"
  shows "p = spec_percentage b T"
proof -
  define t :: rat where "t = of_nat T"
  have t0: "0 < t" using T0 by (simp add: t_def)
  have ne: "200 * int b \<noteq> 2 * int T * p + int T"
  proof
    assume e: "200 * int b = 2 * int T * p + int T"
    have "200 * int b = int T + p * (2 * int T)"
      using e by (simp add: algebra_simps)
    then have "(200 * int b) mod (2 * int T) = (int T + p * (2 * int T)) mod (2 * int T)"
      by (simp only:)
    also have "\<dots> = int T mod (2 * int T)"
      by (simp only: mod_mult_self1)
    also have "\<dots> = int T"
      using T0 by simp
    finally have "int ((200 * b) mod (2 * T)) = int T"
      by (simp add: zmod_int)
    then have "exact_half b T"
      by (simp only: exact_half_def of_nat_eq_iff)
    with nh show False ..
  qed
  have up: "2 * int T * p \<le> 200 * int b + int T" and lo: "200 * int b < 2 * int T * p + int T"
    using m ne by linarith+
  have "(of_int (2 * int T * p) :: rat) \<le> of_int (200 * int b + int T)"
    using up by (simp only: of_int_le_iff)
  then have "2 * t * of_int p \<le> 200 * of_nat b + t"
    by (simp add: t_def)
  then have a: "of_int p \<le> 100 * of_nat b / t + 1 / 2"
    using t0 by (simp add: field_simps)
  have "(of_int (200 * int b) :: rat) < of_int (2 * int T * p + int T)"
    using lo by (simp only: of_int_less_iff)
  then have "200 * of_nat b < 2 * t * of_int p + t"
    by (simp add: t_def)
  then have b: "100 * of_nat b / t + 1 / 2 < of_int p + 1"
    using t0 by (simp add: field_simps)
  have "\<lfloor>100 * of_nat b / t + 1 / 2\<rfloor> = p"
    using a b by (rule floor_unique)
  then show ?thesis
    by (simp add: spec_percentage_def t_def)
qed

subsection \<open>The sort and the sum\<close>

lemma insort_cmp_insort_key:
  "(\<forall>y \<in> set ys. (cmp x y \<le> 0) = (f x \<le> f y)) \<Longrightarrow> insort_cmp cmp x ys = insort_key f x ys"
  by (induction ys) simp_all

lemma sort_cmp_sort_key:
  "(\<forall>x \<in> set xs. \<forall>y \<in> set xs. (cmp x y \<le> 0) = (f x \<le> (f y :: rat))) \<Longrightarrow>
   sort_cmp cmp xs = sort_key f xs"
proof (induction xs)
  case Nil
  then show ?case by (simp add: sort_cmp_def)
next
  case (Cons x xs)
  then have ih: "sort_cmp cmp xs = sort_key f xs" by simp
  have "sort_cmp cmp (x # xs) = insort_cmp cmp x (sort_cmp cmp xs)"
    by (simp add: sort_cmp_def)
  also have "\<dots> = insort_cmp cmp x (sort_key f xs)"
    by (simp only: ih)
  also have "\<dots> = insort_key f x (sort_key f xs)"
    using Cons.prems by (intro insort_cmp_insort_key) simp
  finally show ?case
    by (simp add: sort_key_def)
qed

lemma percentage_entry:
  assumes pos: "0 < sum_list (map snd langs)" and small: "sum_list (map snd langs) < 2 ^ 44"
    and mem: "(name, bytes) \<in> set langs"
  shows "\<exists>p::int. percentage_of (totalBytes langs) bytes = Num (of_int p) \<and>
           \<bar>2 * int (sum_list (map snd langs)) * p - 200 * int bytes\<bar>
             \<le> int (sum_list (map snd langs))"
proof -
  have "(2::nat) ^ 44 \<le> 2 ^ 53"
    by (rule power_increasing) simp_all
  with small have "sum_list (map snd langs) < 2 ^ 53"
    by (rule less_le_trans)
  then have t: "totalBytes langs = Num (of_nat (sum_list (map snd langs)))"
    by (rule totalBytes_exact)
  have "bytes \<in> set (map snd langs)"
    using mem by force
  then have "bytes \<le> sum_list (map snd langs)"
    using member_le_sum_list [of bytes "map snd langs"] by simp
  from percentage_of_near [OF pos small this] show ?thesis
    by (simp only: t)
qed

lemma unsorted_finite:
  assumes pos: "0 < sum_list (map snd langs)" and small: "sum_list (map snd langs) < 2 ^ 44"
    and mem: "l \<in> set (map (\<lambda>(name, bytes).
                             \<lparr>name_l = name, percentage = percentage_of (totalBytes langs) bytes\<rparr>) langs)"
  shows "\<exists>p::int. percentage l = Num (of_int p)"
proof -
  from mem obtain name bytes where "(name, bytes) \<in> set langs"
    and "l = \<lparr>name_l = name, percentage = percentage_of (totalBytes langs) bytes\<rparr>"
    by auto
  with percentage_entry [OF pos small] show ?thesis
    by fastforce
qed

lemma normalize_languages_sort_key:
  assumes pos: "0 < sum_list (map snd langs)" and small: "sum_list (map snd langs) < 2 ^ 44"
  shows "normalize_languages langs
           = sort_key (\<lambda>l. - value_of (percentage l))
               (map (\<lambda>(name, bytes).
                       \<lparr>name_l = name, percentage = percentage_of (totalBytes langs) bytes\<rparr>) langs)"
  unfolding normalize_languages_def
proof (rule sort_cmp_sort_key, intro ballI)
  fix x y
  assume "x \<in> set (map (\<lambda>(name, bytes).
                             \<lparr>name_l = name, percentage = percentage_of (totalBytes langs) bytes\<rparr>) langs)"
    and "y \<in> set (map (\<lambda>(name, bytes).
                             \<lparr>name_l = name, percentage = percentage_of (totalBytes langs) bytes\<rparr>) langs)"
  then obtain p q :: int where "percentage x = Num (of_int p)" and "percentage y = Num (of_int q)"
    using unsorted_finite [OF pos small] by blast
  then show "(js_sub_sign (percentage y) (percentage x) \<le> 0)
               = (- value_of (percentage x) \<le> - value_of (percentage y))"
    by (simp add: value_of_def)
qed

lemma sum_list_exact_percentages:
  "sum_list (map (\<lambda>(name, bytes). 100 * of_nat bytes / t + 1 / 2) langs)
     = 100 * of_nat (sum_list (map snd langs)) / (t :: rat) + of_nat (length langs) / 2"
  by (induction langs) (auto simp add: distrib_left add_divide_distrib)

lemma sum_list_exact_percentages_low:
  "sum_list (map (\<lambda>(name, bytes). 100 * of_nat bytes / t - 1 / 2) langs)
     = 100 * of_nat (sum_list (map snd langs)) / (t :: rat) - of_nat (length langs) / 2"
  by (induction langs) (auto simp add: distrib_left add_divide_distrib)

lemma percentage_sum_sort_key: "percentage_sum (sort_key k ls) = percentage_sum ls"
proof -
  have "sum_list (map (\<lambda>l. value_of (percentage l)) (sort_key k ls))
          = sum_mset (mset (map (\<lambda>l. value_of (percentage l)) (sort_key k ls)))"
    by (simp only: sum_mset_sum_list)
  also have "\<dots> = sum_mset (mset (map (\<lambda>l. value_of (percentage l)) ls))"
    by (simp only: mset_map mset_sort)
  also have "\<dots> = sum_list (map (\<lambda>l. value_of (percentage l)) ls)"
    by (simp only: sum_mset_sum_list)
  finally show ?thesis
    by (simp only: percentage_sum_def)
qed

subsection \<open>Percentages of the examples\<close>

lemma percentage_115_of_200: "percentage_of (Num 200) 115 = Num 57"
proof -
  have q: "fl (115 / 200) = Num (5179139571476070 / 2 ^ 53)"
    using fl_eqI [of "115 / 200" "- 1" 5179139571476070]
    by (simp add: power_int_minus_divide)
  have r: "fl (5179139571476070 / 2 ^ 53 * 100) = Num (8092405580431359 / 2 ^ 47)"
    using fl_eqI [of "5179139571476070 / 2 ^ 53 * 100" 5 8092405580431359]
    by (simp add: power_int_minus_divide)
  have "\<lfloor>(8092405580431359 :: rat) / 2 ^ 47 + 1 / 2\<rfloor> = 57"
    by (rule floor_unique) simp_all
  then show ?thesis
    using q r by (simp add: percentage_of_def)
qed

lemma percentage_85_of_200: "percentage_of (Num 200) 85 = Num 43"
proof -
  have q: "fl (85 / 200) = Num (7656119366529843 / 2 ^ 54)"
    using fl_eqI [of "85 / 200" "- 2" 7656119366529843]
    by (simp add: power_int_minus_divide)
  have r: "fl (7656119366529843 / 2 ^ 54 * 100) = Num (5981343255101440 / 2 ^ 47)"
    using fl_eqI [of "7656119366529843 / 2 ^ 54 * 100" 5 5981343255101440]
    by (simp add: power_int_minus_divide)
  have "\<lfloor>(5981343255101440 :: rat) / 2 ^ 47 + 1 / 2\<rfloor> = 43"
    by (rule floor_unique) simp_all
  then show ?thesis
    using q r by (simp add: percentage_of_def)
qed

lemma percentage_3_of_8: "percentage_of (Num 8) 3 = Num 38"
proof -
  have q: "fl (3 / 8) = Num (6755399441055744 / 2 ^ 54)"
    using fl_eqI [of "3 / 8" "- 2" 6755399441055744]
    by (simp add: power_int_minus_divide)
  have r: "fl (6755399441055744 / 2 ^ 54 * 100) = Num (5277655813324800 / 2 ^ 47)"
    using fl_eqI [of "6755399441055744 / 2 ^ 54 * 100" 5 5277655813324800]
    by (simp add: power_int_minus_divide)
  have "\<lfloor>(5277655813324800 :: rat) / 2 ^ 47 + 1 / 2\<rfloor> = 38"
    by (rule floor_unique) simp_all
  then show ?thesis
    using q r by (simp add: percentage_of_def)
qed

lemma percentage_2_of_8: "percentage_of (Num 8) 2 = Num 25"
proof -
  have q: "fl (2 / 8) = Num (4503599627370496 / 2 ^ 54)"
    using fl_eqI [of "2 / 8" "- 2" 4503599627370496]
    by (simp add: power_int_minus_divide)
  have r: "fl (4503599627370496 / 2 ^ 54 * 100) = Num (7036874417766400 / 2 ^ 48)"
    using fl_eqI [of "4503599627370496 / 2 ^ 54 * 100" 4 7036874417766400]
    by (simp add: power_int_minus_divide)
  have "\<lfloor>(7036874417766400 :: rat) / 2 ^ 48 + 1 / 2\<rfloor> = 25"
    by (rule floor_unique) simp_all
  then show ?thesis
    using q r by (simp add: percentage_of_def)
qed

lemma exact_half_iff:
  assumes "0 < T"
  shows "exact_half b T \<longleftrightarrow> (\<exists>k::int. 100 * of_nat b / (of_nat T :: rat) = of_int k + 1 / 2)"
proof
  assume "exact_half b T"
  then have m: "(200 * b) mod (2 * T) = T"
    by (simp add: exact_half_def)
  define k where "k = (200 * b) div (2 * T)"
  have "200 * b = 2 * T * k + T"
    using div_mult_mod_eq [of "200 * b" "2 * T"] m by (simp add: k_def mult.commute)
  then have "(of_nat (200 * b) :: rat) = of_nat (2 * T * k + T)"
    by (simp only:)
  then have "200 * (of_nat b :: rat) = 2 * of_nat T * of_nat k + of_nat T"
    by simp
  then have "100 * of_nat b / (of_nat T :: rat) = of_int (int k) + 1 / 2"
    using assms by (simp add: field_simps)
  then show "\<exists>k::int. 100 * of_nat b / (of_nat T :: rat) = of_int k + 1 / 2"
    by blast
next
  assume "\<exists>k::int. 100 * of_nat b / (of_nat T :: rat) = of_int k + 1 / 2"
  then obtain k :: int where "100 * of_nat b / (of_nat T :: rat) = of_int k + 1 / 2"
    by blast
  then have "200 * (of_nat b :: rat) = 2 * of_nat T * of_int k + of_nat T"
    using assms by (simp add: field_simps)
  then have "(of_int (200 * int b) :: rat) = of_int (int T + k * (2 * int T))"
    by (simp add: algebra_simps)
  then have "200 * int b = int T + k * (2 * int T)"
    by (simp only: of_int_eq_iff)
  then have "(200 * int b) mod (2 * int T) = (int T + k * (2 * int T)) mod (2 * int T)"
    by (simp only:)
  also have "\<dots> = int T mod (2 * int T)"
    by (simp only: mod_mult_self1)
  also have "\<dots> = int T"
    using assms by simp
  finally have "int ((200 * b) mod (2 * T)) = int T"
    by (simp add: zmod_int)
  then show "exact_half b T"
    by (simp only: exact_half_def of_nat_eq_iff)
qed

section \<open>The category edits\<close>

text \<open>
  Claim C8. When no project is selected, \<^verbatim>\<open>addCategory\<close> and
  \<^verbatim>\<open>removeCategory\<close> are no-ops for every category and every category id: the
  whole state (the projects list, the selected-project view, the global category list, and
  what was persisted) stays as it is, and the handlers return normally.
\<close>

theorem no_selection_noop:
  "selectedProject s = None \<Longrightarrow> addCategory c s = s \<and> removeCategory categoryId s = s"
  by (simp add: addCategory_def removeCategory_def)

theorem no_selection_noop_witness:
  "selectedProject page0 = None \<and> addCategory catB page0 = page0 \<and> removeCategory ''c1'' page0 = page0"
  using no_selection_noop [of page0 catB "''c1''"] by (simp add: page0_def)

text \<open>
  Claim C3. With a project selected, \<^verbatim>\<open>addCategory\<close> appends the category to the
  selected-project view, whose \<^verbatim>\<open>categories\<close> grow by exactly one, and to every
  entry of the projects list that has the selected id; the global category list gains the
  category if and only if none of its entries has the same name.
\<close>

theorem addCategory_selected:
  "selectedProject s = Some sel \<Longrightarrow>
   selectedProject (addCategory c s)
     = Some (sel\<lparr>categories := Some (or_empty (categories sel) @ [c])\<rparr>) \<and>
   length (or_empty (categories (the (selectedProject (addCategory c s)))))
     = length (or_empty (categories sel)) + 1 \<and>
   length (projects (addCategory c s)) = length (projects s) \<and>
   (\<forall>i < length (projects s). id_p (projects s ! i) = id_p sel \<longrightarrow>
      or_empty (categories (projects (addCategory c s) ! i))
        = or_empty (categories (projects s ! i)) @ [c]) \<and>
   globalCategories (addCategory c s)
     = (if \<exists>g \<in> set (globalCategories s). name_c g = name_c c
        then globalCategories s else globalCategories s @ [c])"
  by (auto simp add: addCategory_def Let_def setProjectsState_def setProjects_def
        setGlobalCategories_def setCategories_def or_empty_def find_None_iff)

theorem addCategory_selected_witness:
  "selectedProject (page0\<lparr>selectedProject := Some projA\<rparr>) = Some projA \<and>
   length (or_empty (categories projA)) = 1 \<and>
   length (or_empty (categories (the (selectedProject
       (addCategory catB (page0\<lparr>selectedProject := Some projA\<rparr>)))))) = 2 \<and>
   or_empty (categories (projects (addCategory catB (page0\<lparr>selectedProject := Some projA\<rparr>)) ! 0))
     = [catA, catB] \<and>
   globalCategories (addCategory catB (page0\<lparr>selectedProject := Some projA\<rparr>)) = [catA, catB] \<and>
   globalCategories (addCategory catA (page0\<lparr>selectedProject := Some projA\<rparr>)) = [catA]"
proof -
  have sel: "selectedProject (page0\<lparr>selectedProject := Some projA\<rparr>) = Some projA"
    by simp
  have len: "length (or_empty (categories projA)) = 1"
    by (simp add: projA_def or_empty_def)
  have ps: "projects (page0\<lparr>selectedProject := Some projA\<rparr>) = [projA, projB]"
    and gs: "globalCategories (page0\<lparr>selectedProject := Some projA\<rparr>) = [catA]"
    by (simp_all add: page0_def)
  have ca: "or_empty (categories projA) = [catA]"
    by (simp add: projA_def or_empty_def)
  have nm: "name_c catA \<noteq> name_c catB"
    by (simp add: catA_def catB_def)
  note tB = addCategory_selected [OF sel, of catB]
  note tA = addCategory_selected [OF sel, of catA]
  have 1: "length (or_empty (categories (the (selectedProject
       (addCategory catB (page0\<lparr>selectedProject := Some projA\<rparr>)))))) = 2"
    using tB len by simp
  have 2: "or_empty (categories (projects (addCategory catB (page0\<lparr>selectedProject := Some projA\<rparr>)) ! 0))
     = [catA, catB]"
  proof -
    have "\<forall>i < length (projects (page0\<lparr>selectedProject := Some projA\<rparr>)).
            id_p (projects (page0\<lparr>selectedProject := Some projA\<rparr>) ! i) = id_p projA \<longrightarrow>
            or_empty (categories (projects (addCategory catB (page0\<lparr>selectedProject := Some projA\<rparr>)) ! i))
              = or_empty (categories (projects (page0\<lparr>selectedProject := Some projA\<rparr>) ! i)) @ [catB]"
      using tB by blast
    from this [rule_format, of 0] show ?thesis
      by (simp add: ps ca)
  qed
  have 3: "globalCategories (addCategory catB (page0\<lparr>selectedProject := Some projA\<rparr>)) = [catA, catB]"
    using tB gs nm by simp
  have 4: "globalCategories (addCategory catA (page0\<lparr>selectedProject := Some projA\<rparr>)) = [catA]"
    using tA gs by simp
  show ?thesis
    using sel len 1 2 3 4 by blast
qed

text \<open>
  Claim C1, evaluated where it fails. The first project of the list carries category
  \<open>c1\<close> and is selected. After \<^verbatim>\<open>removeCategory\<close> of \<open>c1\<close> the projects list
  of the state is what it was, and its first project still carries the category; the
  selected-project view and the list handed to the persistence layer have lost it, and the
  global category list is unchanged.
\<close>

theorem removeCategory_stale_state_list:
  "categories (hd (projects (page0\<lparr>selectedProject := Some projA\<rparr>))) = Some [catA] \<and>
   id_c catA = ''c1'' \<and>
   projects (removeCategory ''c1'' (page0\<lparr>selectedProject := Some projA\<rparr>))
     = projects (page0\<lparr>selectedProject := Some projA\<rparr>) \<and>
   categories (hd (projects (removeCategory ''c1'' (page0\<lparr>selectedProject := Some projA\<rparr>))))
     = Some [catA] \<and>
   map_option categories (selectedProject (removeCategory ''c1'' (page0\<lparr>selectedProject := Some projA\<rparr>)))
     = Some (Some []) \<and>
   map categories (storedProjects (removeCategory ''c1'' (page0\<lparr>selectedProject := Some projA\<rparr>)))
     = [Some [], Some [catA, catB]] \<and>
   globalCategories (removeCategory ''c1'' (page0\<lparr>selectedProject := Some projA\<rparr>)) = [catA]"
  by (simp add: removeCategory_def setProjects_def page0_def projA_def projB_def catA_def catB_def or_empty_def)

text \<open>
  Claim C10. With a project selected, \<^verbatim>\<open>addCategory\<close> and
  \<^verbatim>\<open>removeCategory\<close> keep the length of the projects list, and every project whose
  id differs from the selected project's id is identical, at the same position, in the
  resulting projects list and in the list written to the persistence layer.
\<close>

theorem category_edit_frame:
  "selectedProject s = Some sel \<Longrightarrow>
   length (projects (addCategory c s)) = length (projects s) \<and>
   length (projects (removeCategory categoryId s)) = length (projects s) \<and>
   length (storedProjects (removeCategory categoryId s)) = length (projects s) \<and>
   (\<forall>i < length (projects s). id_p (projects s ! i) \<noteq> id_p sel \<longrightarrow>
      projects (addCategory c s) ! i = projects s ! i \<and>
      storedProjects (addCategory c s) ! i = projects s ! i \<and>
      projects (removeCategory categoryId s) ! i = projects s ! i \<and>
      storedProjects (removeCategory categoryId s) ! i = projects s ! i)"
  by (auto simp add: addCategory_def removeCategory_def Let_def setProjectsState_def setProjects_def
        setGlobalCategories_def setCategories_def)

theorem category_edit_frame_witness:
  "selectedProject (page0\<lparr>selectedProject := Some projA\<rparr>) = Some projA \<and>
   id_p projB \<noteq> id_p projA \<and>
   projects (addCategory catB (page0\<lparr>selectedProject := Some projA\<rparr>)) ! 1 = projB \<and>
   projects (removeCategory ''c1'' (page0\<lparr>selectedProject := Some projA\<rparr>)) ! 1 = projB \<and>
   storedProjects (removeCategory ''c1'' (page0\<lparr>selectedProject := Some projA\<rparr>)) ! 1 = projB"
  using category_edit_frame [of "page0\<lparr>selectedProject := Some projA\<rparr>" projA catB "''c1''"]
  by (simp add: page0_def projA_def projB_def)

section \<open>The project store\<close>

text \<open>
  Claim C4, as amended. \<^verbatim>\<open>removeProject\<close> keeps exactly the entries whose id
  differs: the list of length \<open>n\<close> loses every entry with the removed id (\<open>k\<close> of them,
  so its length is \<open>n - k\<close>, and \<open>n - 1\<close> when exactly one entry has the id), no entry
  with the removed id remains, and the persistence layer receives the new full list.
\<close>

theorem removeProject_all_matching:
  "projects (removeProject i s) = filter (\<lambda>p. id_p p \<noteq> i) (projects s) \<and>
   length (projects (removeProject i s)) + length (filter (\<lambda>p. id_p p = i) (projects s))
     = length (projects s) \<and>
   (length (filter (\<lambda>p. id_p p = i) (projects s)) = 1 \<longrightarrow>
      length (projects (removeProject i s)) = length (projects s) - 1) \<and>
   i \<notin> id_p ` set (projects (removeProject i s)) \<and>
   storedProjects (removeProject i s) = projects (removeProject i s)"
proof -
  have "length (filter (\<lambda>p. id_p p \<noteq> i) (projects s)) + length (filter (\<lambda>p. id_p p = i) (projects s))
          = length (projects s)"
    using sum_length_filter_compl [of "\<lambda>p. id_p p = i" "projects s"] by simp
  then show ?thesis
    by (auto simp add: removeProject_def setProjectsState_def setProjects_def)
qed

theorem removeProject_all_matching_witness:
  "length (filter (\<lambda>p. id_p p = ''2'') (projects page0)) = 1 \<and>
   length (projects page0) = 2 \<and>
   length (projects (removeProject ''2'' page0)) = 1 \<and>
   ''2'' \<notin> id_p ` set (projects (removeProject ''2'' page0)) \<and>
   storedProjects (removeProject ''2'' page0) = [projA]"
proof -
  have k: "length (filter (\<lambda>p. id_p p = ''2'') (projects page0)) = 1"
    and n: "length (projects page0) = 2"
    and f: "filter (\<lambda>p. id_p p \<noteq> ''2'') (projects page0) = [projA]"
    by (simp_all add: page0_def projA_def projB_def)
  note t = removeProject_all_matching [of "''2''" page0]
  show ?thesis
    using t k n f by (simp add: projA_def)
qed

text \<open>
  The claim as stated fails when two entries share the id: of three projects, two with the
  id of \<open>projA\<close>, one is left, not two.
\<close>

theorem removeProject_duplicates_counterexample:
  "length (projects (addProject projA page0)) = 3 \<and>
   projA \<in> set (projects (addProject projA page0)) \<and>
   length (projects (removeProject (id_p projA) (addProject projA page0))) = 1"
  by (simp add: removeProject_def addProject_def setProjectsState_def setProjects_def page0_def projA_def projB_def)

text \<open>
  Claim C9. \<^verbatim>\<open>addProject\<close> appends the project at the end of the list and looks
  at no id: adding a project twice leaves two entries with its id, and selecting the same
  discovery repository twice, the details arriving both times, appends two projects whose
  id is the decimal form of the repository's id.
\<close>

theorem addProject_appends_without_dedup:
  "projects (addProject p s) = projects s @ [p] \<and>
   projects (addProject p (addProject p s)) = projects s @ [p, p] \<and>
   (g1 (nth_opt (split (CHR ''/'') (full_name repo)) 0)
       (nth_opt (split (CHR ''/'') (full_name repo)) 1) = Inr d1 \<and>
    g2 (nth_opt (split (CHR ''/'') (full_name repo)) 0)
       (nth_opt (split (CHR ''/'') (full_name repo)) 1) = Inr d2 \<longrightarrow>
    projects (handleSelectRepo g2 repo (handleSelectRepo g1 repo s))
      = projects s @ [make_project repo d1, make_project repo d2] \<and>
    id_p (make_project repo d1) = toString (id_r repo) \<and>
    id_p (make_project repo d2) = toString (id_r repo))"
  by (simp add: handleSelectRepo_success)
     (simp add: addProject_def setProjectsState_def setProjects_def make_project_def)

theorem addProject_appends_without_dedup_witness:
  "map id_p (projects (addProject projA (addProject projA (page0\<lparr>projects := []\<rparr>)))) = [''1'', ''1''] \<and>
   map id_p (projects (handleSelectRepo (\<lambda>ow nm. Inr details1) repo1
                         (handleSelectRepo (\<lambda>ow nm. Inr details1) repo1 (page0\<lparr>projects := []\<rparr>))))
     = [''1'', ''1'']"
proof -
  note t = addProject_appends_without_dedup
             [of projA "page0\<lparr>projects := []\<rparr>" "\<lambda>ow nm. Inr details1" repo1 details1
                 "\<lambda>ow nm. Inr details1" details1]
  have a: "projects (addProject projA (addProject projA (page0\<lparr>projects := []\<rparr>))) = [projA, projA]"
    using t by simp
  have b: "map id_p (projects (handleSelectRepo (\<lambda>ow nm. Inr details1) repo1
                         (handleSelectRepo (\<lambda>ow nm. Inr details1) repo1 (page0\<lparr>projects := []\<rparr>))))
             = [toString (id_r repo1), toString (id_r repo1)]"
    using t by simp
  have c: "toString (id_r repo1) = ''1''"
    by code_simp
  show ?thesis
    by (simp add: a b c) (simp add: projA_def)
qed

section \<open>The discovery bridge\<close>

text \<open>
  Claim C7. When the request for the details fails, \<^verbatim>\<open>handleSelectRepo\<close> returns
  normally with the state it started from, except that the loading flag is cleared and the
  error is logged on the console: no project is added, in the state or in the persistence
  layer, and discovery mode stays as it was.
\<close>

theorem fetch_failure_is_swallowed:
  "getRepoDetails (nth_opt (split (CHR ''/'') (full_name repo)) 0)
                  (nth_opt (split (CHR ''/'') (full_name repo)) 1) = Inl err \<Longrightarrow>
   handleSelectRepo getRepoDetails repo s
     = s\<lparr>isLoading := False, console := console s @ [(''Error adding project:'', err)]\<rparr> \<and>
   projects (handleSelectRepo getRepoDetails repo s) = projects s \<and>
   storedProjects (handleSelectRepo getRepoDetails repo s) = storedProjects s \<and>
   isDiscoveryMode (handleSelectRepo getRepoDetails repo s) = isDiscoveryMode s \<and>
   isLoading (handleSelectRepo getRepoDetails repo s) = False"
  by (simp add: handleSelectRepo_def)

theorem fetch_failure_is_swallowed_witness:
  "projects (handleSelectRepo (\<lambda>ow nm. Inl (Error ''404'')) repo1 page0) = projects page0 \<and>
   isDiscoveryMode (handleSelectRepo (\<lambda>ow nm. Inl (Error ''404'')) repo1 page0) \<and>
   isLoading (handleSelectRepo (\<lambda>ow nm. Inl (Error ''404'')) repo1 page0) = False \<and>
   console (handleSelectRepo (\<lambda>ow nm. Inl (Error ''404'')) repo1 page0)
     = [(''Error adding project:'', Error ''404'')]"
  using fetch_failure_is_swallowed [of "\<lambda>ow nm. Inl (Error ''404'')" repo1 "Error ''404''" page0]
  by (simp add: page0_def)

section \<open>The filter engine\<close>



section \<open>The normalisation of the languages\<close>

text \<open>
  Claim C5, as amended. For byte counts with a positive total below \<open>2 ^ 44\<close>, the
  normalisation is the stable sort, descending by percentage, of one entry per language of
  the map; each percentage is an integer within one half of the exact value
  100 \<times> bytes / total, and it is round(100 \<times> bytes / total) whenever the exact value
  does not lie halfway between two integers (there the rounding of the double arithmetic
  decides between the two neighbours). The map \<open>{TypeScript: 300, JavaScript: 100}\<close>
  yields \<open>[{TypeScript, 75}, {JavaScript, 25}]\<close>.
\<close>

theorem normalize_languages_nearest:
  assumes pos: "0 < sum_list (map snd langs)" and small: "sum_list (map snd langs) < 2 ^ 44"
  shows "normalize_languages langs
           = sort_key (\<lambda>l. - value_of (percentage l))
               (map (\<lambda>(name, bytes).
                       \<lparr>name_l = name, percentage = percentage_of (totalBytes langs) bytes\<rparr>) langs) \<and>
         sorted_wrt (\<lambda>a b. value_of (percentage b) \<le> value_of (percentage a))
           (normalize_languages langs) \<and>
         mset (map name_l (normalize_languages langs)) = mset (map fst langs) \<and>
         (\<forall>(name, bytes) \<in> set langs.
            \<exists>p::int. percentage_of (totalBytes langs) bytes = Num (of_int p) \<and>
              \<bar>of_int p - 100 * of_nat bytes / (of_nat (sum_list (map snd langs)) :: rat)\<bar> \<le> 1 / 2 \<and>
              (\<not> exact_half bytes (sum_list (map snd langs)) \<longrightarrow>
                 p = spec_percentage bytes (sum_list (map snd langs))))"
proof (intro conjI)
  let ?raw = "map (\<lambda>(name, bytes).
                       \<lparr>name_l = name, percentage = percentage_of (totalBytes langs) bytes\<rparr>) langs"
  let ?key = "\<lambda>l. - value_of (percentage l)"
  show e: "normalize_languages langs = sort_key ?key ?raw"
    using pos small by (rule normalize_languages_sort_key)
  have "sorted (map ?key (sort_key ?key ?raw))"
    by (rule sorted_sort_key)
  then show "sorted_wrt (\<lambda>a b. value_of (percentage b) \<le> value_of (percentage a))
               (normalize_languages langs)"
    unfolding e by (simp add: sorted_map)
  have "mset (map name_l (sort_key ?key ?raw)) = mset (map name_l ?raw)"
    by (simp only: mset_map mset_sort)
  also have "map name_l ?raw = map fst langs"
    by (induction langs) auto
  finally show "mset (map name_l (normalize_languages langs)) = mset (map fst langs)"
    unfolding e .
  show "\<forall>(name, bytes) \<in> set langs.
            \<exists>p::int. percentage_of (totalBytes langs) bytes = Num (of_int p) \<and>
              \<bar>of_int p - 100 * of_nat bytes / (of_nat (sum_list (map snd langs)) :: rat)\<bar> \<le> 1 / 2 \<and>
              (\<not> exact_half bytes (sum_list (map snd langs)) \<longrightarrow>
                 p = spec_percentage bytes (sum_list (map snd langs)))"
  proof (intro ballI, clarify)
    fix name bytes
    assume "(name, bytes) \<in> set langs"
    from percentage_entry [OF pos small this]
    obtain p :: int where p: "percentage_of (totalBytes langs) bytes = Num (of_int p)"
      and m: "\<bar>2 * int (sum_list (map snd langs)) * p - 200 * int bytes\<bar>
                \<le> int (sum_list (map snd langs))"
      by blast
    have "\<bar>of_int p - 100 * of_nat bytes / (of_nat (sum_list (map snd langs)) :: rat)\<bar> \<le> 1 / 2"
      using m pos by (rule percentage_of_half)
    moreover have "\<not> exact_half bytes (sum_list (map snd langs)) \<longrightarrow>
                     p = spec_percentage bytes (sum_list (map snd langs))"
      using m pos by (auto intro: percentage_not_half)
    ultimately show "\<exists>p::int. percentage_of (totalBytes langs) bytes = Num (of_int p) \<and>
              \<bar>of_int p - 100 * of_nat bytes / (of_nat (sum_list (map snd langs)) :: rat)\<bar> \<le> 1 / 2 \<and>
              (\<not> exact_half bytes (sum_list (map snd langs)) \<longrightarrow>
                 p = spec_percentage bytes (sum_list (map snd langs)))"
      using p by blast
  qed
qed

theorem normalize_languages_nearest_witness:
  "0 < sum_list (map snd [(''TypeScript'', 300), (''JavaScript'', 100 :: nat)]) \<and>
   sum_list (map snd [(''TypeScript'', 300), (''JavaScript'', 100 :: nat)]) < 2 ^ 44 \<and>
   normalize_languages [(''TypeScript'', 300), (''JavaScript'', 100)]
     = [\<lparr>name_l = ''TypeScript'', percentage = Num 75\<rparr>,
        \<lparr>name_l = ''JavaScript'', percentage = Num 25\<rparr>] \<and>
   spec_percentage 300 400 = 75 \<and> spec_percentage 100 400 = 25"
proof -
  let ?L = "[(''TypeScript'', 300), (''JavaScript'', 100 :: nat)]"
  have pos: "0 < sum_list (map snd ?L)" and small: "sum_list (map snd ?L) < 2 ^ 44"
    by simp_all
  have tot: "sum_list (map snd ?L) = 400"
    by simp
  note t = normalize_languages_nearest [OF pos small]
  have "\<lfloor>(100 :: rat) * 300 / 400 + 1 / 2\<rfloor> = 75"
    by (rule floor_unique) simp_all
  then have s1: "spec_percentage 300 400 = 75"
    by (simp add: spec_percentage_def)
  have "\<lfloor>(100 :: rat) * 100 / 400 + 1 / 2\<rfloor> = 25"
    by (rule floor_unique) simp_all
  then have s2: "spec_percentage 100 400 = 25"
    by (simp add: spec_percentage_def)
  have h1: "\<not> exact_half 300 400" and h2: "\<not> exact_half 100 400"
    by (simp_all add: exact_half_def)
  have all: "\<forall>(name, bytes) \<in> set ?L.
            \<exists>p::int. percentage_of (totalBytes ?L) bytes = Num (of_int p) \<and>
              \<bar>of_int p - 100 * of_nat bytes / (of_nat (sum_list (map snd ?L)) :: rat)\<bar> \<le> 1 / 2 \<and>
              (\<not> exact_half bytes (sum_list (map snd ?L)) \<longrightarrow>
                 p = spec_percentage bytes (sum_list (map snd ?L)))"
    using t by blast
  have p1: "percentage_of (totalBytes ?L) 300 = Num 75"
    using bspec [OF all, of "(''TypeScript'', 300)"] h1 s1 unfolding tot by auto
  have p2: "percentage_of (totalBytes ?L) 100 = Num 25"
    using bspec [OF all, of "(''JavaScript'', 100)"] h2 s2 unfolding tot by auto
  have "normalize_languages ?L
          = sort_key (\<lambda>l. - value_of (percentage l))
              (map (\<lambda>(name, bytes).
                      \<lparr>name_l = name, percentage = percentage_of (totalBytes ?L) bytes\<rparr>) ?L)"
    using t by blast
  then have n: "normalize_languages ?L
     = [\<lparr>name_l = ''TypeScript'', percentage = Num 75\<rparr>,
        \<lparr>name_l = ''JavaScript'', percentage = Num 25\<rparr>]"
    by (simp add: p1 p2 value_of_def)
  from pos small n s1 s2 show ?thesis
    by blast
qed

text \<open>
  The claim as stated fails at a tie: for 115 bytes of 200 the exact percentage is 57.5,
  which rounds to 58 (halves up, and halves to even as well), but the quotient \<^verbatim>\<open>115 / 200\<close> times 100 is the double just
  below 57.5, and the page stores 57.
\<close>

theorem normalize_languages_tie_counterexample:
  "normalize_languages [(''Go'', 115), (''C'', 85)]
     = [\<lparr>name_l = ''Go'', percentage = Num 57\<rparr>, \<lparr>name_l = ''C'', percentage = Num 43\<rparr>] \<and>
   spec_percentage 115 (115 + 85) = 58 \<and>
   round_half_even (100 * 115 / (115 + 85)) = 58"
proof -
  have t: "totalBytes [(''Go'', 115), (''C'', 85)] = Num 200"
    using totalBytes_exact [of "[(''Go'', 115), (''C'', 85)]"] by simp
  have n: "normalize_languages [(''Go'', 115), (''C'', 85)]
     = [\<lparr>name_l = ''Go'', percentage = Num 57\<rparr>, \<lparr>name_l = ''C'', percentage = Num 43\<rparr>]"
    by (simp add: normalize_languages_def t percentage_115_of_200 percentage_85_of_200 sort_cmp_def)
  have "\<lfloor>(100 :: rat) * 115 / 200 + 1 / 2\<rfloor> = 58"
    by (rule floor_unique) simp_all
  then have s: "spec_percentage 115 (115 + 85) = 58"
    by (simp add: spec_percentage_def)
  have "\<lfloor>(115 :: rat) / 2\<rfloor> = 57"
    by (rule floor_unique) simp_all
  then have e: "round_half_even (100 * 115 / (115 + 85)) = 58"
    by (simp add: round_half_even_def)
  from n s e show ?thesis
    by blast
qed

text \<open>
  Claim C6, as amended. For byte counts with a positive total below \<open>2 ^ 44\<close>, every
  percentage of the normalised list is an integer, and their sum is at most 100 plus half
  the number of languages (and at least 100 minus half that number).
\<close>

theorem percentage_sum_bound:
  assumes pos: "0 < sum_list (map snd langs)" and small: "sum_list (map snd langs) < 2 ^ 44"
  shows "(\<forall>l \<in> set (normalize_languages langs). \<exists>p::int. percentage l = Num (of_int p)) \<and>
         percentage_sum (normalize_languages langs) \<le> 100 + of_nat (length langs) / 2 \<and>
         100 - of_nat (length langs) / 2 \<le> percentage_sum (normalize_languages langs)"
proof -
  define t :: rat where "t = of_nat (sum_list (map snd langs))"
  have t0: "0 < t" using pos by (simp add: t_def)
  let ?v = "\<lambda>(name :: string, bytes). value_of (percentage_of (totalBytes langs) bytes)"
  have "percentage_sum (normalize_languages langs)
          = percentage_sum (map (\<lambda>(name, bytes).
                       \<lparr>name_l = name, percentage = percentage_of (totalBytes langs) bytes\<rparr>) langs)"
    by (simp only: normalize_languages_sort_key [OF pos small] percentage_sum_sort_key)
  also have "\<dots> = sum_list (map ?v langs)"
    by (simp add: percentage_sum_def comp_def case_prod_unfold)
  finally have s: "percentage_sum (normalize_languages langs) = sum_list (map ?v langs)" .
  have near: "(case x of (name, bytes) \<Rightarrow> 100 * of_nat bytes / t - 1 / 2) \<le> ?v x \<and>
              ?v x \<le> (case x of (name, bytes) \<Rightarrow> 100 * of_nat bytes / t + 1 / 2)"
    if "x \<in> set langs" for x
  proof -
    obtain name bytes where x: "x = (name, bytes)" by (cases x)
    from percentage_entry [OF pos small that [unfolded x]]
    obtain p :: int where p: "percentage_of (totalBytes langs) bytes = Num (of_int p)"
      and m: "\<bar>2 * int (sum_list (map snd langs)) * p - 200 * int bytes\<bar>
                \<le> int (sum_list (map snd langs))"
      by blast
    have "\<bar>of_int p - 100 * of_nat bytes / t\<bar> \<le> 1 / 2"
      unfolding t_def using m pos by (rule percentage_of_half)
    then have "100 * of_nat bytes / t - 1 / 2 \<le> of_int p \<and> of_int p \<le> 100 * of_nat bytes / t + 1 / 2"
      by linarith
    then show ?thesis
      by (simp add: x p value_of_def)
  qed
  have "sum_list (map ?v langs)
          \<le> sum_list (map (\<lambda>(name, bytes). 100 * of_nat bytes / t + 1 / 2) langs)"
  proof (rule sum_list_mono)
    fix x assume "x \<in> set langs"
    from near [OF this] show "?v x \<le> (case x of (name, bytes) \<Rightarrow> 100 * of_nat bytes / t + 1 / 2)"
      by blast
  qed
  also have "\<dots> = 100 * t / t + of_nat (length langs) / 2"
    by (simp only: sum_list_exact_percentages t_def)
  also have "\<dots> = 100 + of_nat (length langs) / 2"
    using t0 by simp
  finally have up: "sum_list (map ?v langs) \<le> 100 + of_nat (length langs) / 2" .
  have "sum_list (map (\<lambda>(name, bytes). 100 * of_nat bytes / t - 1 / 2) langs)
          \<le> sum_list (map ?v langs)"
  proof (rule sum_list_mono)
    fix x assume "x \<in> set langs"
    from near [OF this] show "(case x of (name, bytes) \<Rightarrow> 100 * of_nat bytes / t - 1 / 2) \<le> ?v x"
      by blast
  qed
  moreover have "sum_list (map (\<lambda>(name, bytes). 100 * of_nat bytes / t - 1 / 2) langs)
                   = 100 * t / t - of_nat (length langs) / 2"
    by (simp only: sum_list_exact_percentages_low t_def)
  moreover have "100 * t / t = 100"
    using t0 by simp
  ultimately have lo: "100 - of_nat (length langs) / 2 \<le> sum_list (map ?v langs)"
    by simp
  have fin: "\<forall>l \<in> set (normalize_languages langs). \<exists>p::int. percentage l = Num (of_int p)"
    unfolding normalize_languages_sort_key [OF pos small] set_sort
    using unsorted_finite [OF pos small] by blast
  from up lo have "percentage_sum (normalize_languages langs) \<le> 100 + of_nat (length langs) / 2 \<and>
         100 - of_nat (length langs) / 2 \<le> percentage_sum (normalize_languages langs)"
    by (simp only: s)
  with fin show ?thesis
    by blast
qed

theorem percentage_sum_bound_witness:
  "0 < sum_list (map snd [(''TypeScript'', 300), (''JavaScript'', 100 :: nat)]) \<and>
   sum_list (map snd [(''TypeScript'', 300), (''JavaScript'', 100 :: nat)]) < 2 ^ 44 \<and>
   percentage_sum (normalize_languages [(''TypeScript'', 300), (''JavaScript'', 100)]) \<le> 101 \<and>
   99 \<le> percentage_sum (normalize_languages [(''TypeScript'', 300), (''JavaScript'', 100)])"
proof -
  have pos: "0 < sum_list (map snd [(''TypeScript'', 300), (''JavaScript'', 100 :: nat)])"
    and small: "sum_list (map snd [(''TypeScript'', 300), (''JavaScript'', 100 :: nat)]) < 2 ^ 44"
    by simp_all
  from percentage_sum_bound [OF pos small] pos small show ?thesis
    by simp
qed

text \<open>
  The claim as stated fails: for the byte counts 3, 3 and 2 the percentages are 38, 38 and
  25 (37.5 rounds up twice), and their sum is 101.
\<close>

theorem percentage_sum_over_100_counterexample:
  "sum_list (map snd [(''A'', 3), (''B'', 3), (''C'', 2 :: nat)]) = 8 \<and>
   normalize_languages [(''A'', 3), (''B'', 3), (''C'', 2)]
     = [\<lparr>name_l = ''A'', percentage = Num 38\<rparr>, \<lparr>name_l = ''B'', percentage = Num 38\<rparr>,
        \<lparr>name_l = ''C'', percentage = Num 25\<rparr>] \<and>
   percentage_sum (normalize_languages [(''A'', 3), (''B'', 3), (''C'', 2)]) = 101"
proof -
  have t: "totalBytes [(''A'', 3), (''B'', 3), (''C'', 2)] = Num 8"
    using totalBytes_exact [of "[(''A'', 3), (''B'', 3), (''C'', 2)]"] by simp
  have n: "normalize_languages [(''A'', 3), (''B'', 3), (''C'', 2)]
     = [\<lparr>name_l = ''A'', percentage = Num 38\<rparr>, \<lparr>name_l = ''B'', percentage = Num 38\<rparr>,
        \<lparr>name_l = ''C'', percentage = Num 25\<rparr>]"
    by (simp add: normalize_languages_def t percentage_3_of_8 percentage_2_of_8 sort_cmp_def)
  show ?thesis
    unfolding n by (simp add: percentage_sum_def value_of_def)
qed

end
